theory Spec2Isabelle
  imports Main "HOL-Library.Sublist"
begin

section \<open>Python string primitives used by the clipboard manager\<close>

text \<open>
  Python text is modelled as \<open>string\<close>, one \<open>char\<close> per code point.
  \<open>isspace\<close> lists the code points below 256 that \<open>str.isspace\<close> accepts; these are
  the characters \<open>str.strip()\<close> removes from both ends.
\<close>

definition isspace :: "char \<Rightarrow> bool" where
  "isspace c =
     (let n = (of_char c :: nat)
      in (9 \<le> n \<and> n \<le> 13) \<or> (28 \<le> n \<and> n \<le> 32) \<or> n = 133 \<or> n = 160)"

definition strip :: "string \<Rightarrow> string" where
  "strip s = rev (dropWhile isspace (rev (dropWhile isspace s)))"

text \<open>\<open>xs[:n]\<close> for a Python integer \<open>n\<close>: a negative bound counts from the end.\<close>

definition slice_to :: "int \<Rightarrow> 'a list \<Rightarrow> 'a list" where
  "slice_to n xs =
     (if 0 \<le> n then take (nat n) xs else take (length xs - nat (- n)) xs)"

section \<open>The manager's attributes (\<open>ClipboardManager.__init__\<close>)\<close>

definition max_entries :: int where
  "max_entries = 5"

definition separator :: string where
  "separator = ''---CLIPBOARD_ENTRY_SEPARATOR---''"

text \<open>
  \<open>s.split(self.separator)\<close>: the text is cut at the leftmost occurrences of the
  separator, scanning from the left and resuming after each occurrence; the result
  always has at least one block.
\<close>

function split_sep :: "string \<Rightarrow> string list" where
  "split_sep [] = [[]]"
| "split_sep (c # cs) =
     (if prefix separator (c # cs)
      then [] # split_sep (drop (length separator) (c # cs))
      else (case split_sep cs of
              [] \<Rightarrow> [[c]]
            | r # rs \<Rightarrow> (c # r) # rs))"
  by pat_completeness auto
termination
  by (relation "measure length") (auto simp: separator_def)

text \<open>\<open>self.separator.join(blocks)\<close>.\<close>

fun join_sep :: "string list \<Rightarrow> string" where
  "join_sep [] = []"
| "join_sep [b] = b"
| "join_sep (b # b' # bs) = b @ separator @ join_sep (b' # bs)"

section \<open>Reading the clipboard (\<open>get_clipboard_content\<close>)\<close>

text \<open>
  What \<open>subprocess.run\<close> does: it returns a completed process with a return code and
  its standard output, or it raises. \<open>TimeoutExpired\<close> and \<open>SubprocessError\<close> are the
  two classes the \<open>except\<close> clause names; \<open>OtherException\<close> stands for every
  exception outside them (for instance the \<open>OSError\<close> of a missing executable), which
  the clause does not catch.
\<close>

datatype exn = SubprocessError | TimeoutExpired | OtherException

datatype run_result = CompletedProcess int string | Raises exn

fun get_clipboard_content :: "run_result \<Rightarrow> exn + string" where
  "get_clipboard_content (CompletedProcess returncode stdout) =
     Inr (if returncode = 0 then stdout else [])"
| "get_clipboard_content (Raises SubprocessError) = Inr []"
| "get_clipboard_content (Raises TimeoutExpired) = Inr []"
| "get_clipboard_content (Raises OtherException) = Inl OtherException"

section \<open>The history file (\<open>add_to_history\<close>, \<open>trim_history\<close>, \<open>clear_history\<close>)\<close>

text \<open>
  The state is the text of the history file; reads and writes of the file itself are
  taken to succeed. \<open>trim_history\<close> maps the text found in the file to the text it
  leaves there.
\<close>

definition trim_history :: "string \<Rightarrow> string" where
  "trim_history content =
     (let entries = split_sep content
      in if int (length entries) > max_entries
         then join_sep (slice_to max_entries entries)
         else content)"

text \<open>
  The body of \<open>add_to_history\<close> once the clipboard read has returned \<open>content\<close>:
  the result is the returned flag and the text of the file afterwards.
\<close>

definition add_content :: "string \<Rightarrow> string \<Rightarrow> bool \<times> string" where
  "add_content content history =
     (if content = [] then (False, history)
      else
        let entries = split_sep history
        in if entries \<noteq> [] \<and> strip (hd entries) = strip content
           then (False, history)
           else (True, trim_history (content @ ''\<newline>'' @ separator @ ''\<newline>'' @ history)))"

definition add_to_history :: "run_result \<Rightarrow> string \<Rightarrow> exn + bool \<times> string" where
  "add_to_history r history =
     (case get_clipboard_content r of
        Inl e \<Rightarrow> Inl e
      | Inr content \<Rightarrow> Inr (add_content content history))"

definition clear_history :: "string \<Rightarrow> bool \<times> string" where
  "clear_history history = (True, [])"

section \<open>Browsing (\<open>show_history\<close>)\<close>

text \<open>The loop that fills \<open>full_entries\<close>, with the list built so far as accumulator.\<close>

fun collect_entries :: "string list \<Rightarrow> string list \<Rightarrow> string list" where
  "collect_entries [] full = full"
| "collect_entries (entry # entries) full =
     collect_entries entries (if strip entry \<noteq> [] then full @ [strip entry] else full)"

text \<open>
  The entries \<open>show_history\<close> offers for a given text of the history file; it returns
  before the menu when the text is blank.
\<close>

definition full_entries :: "string \<Rightarrow> string list" where
  "full_entries content =
     (if strip content = [] then [] else collect_entries (split_sep content) [])"

text \<open>
  Selection mode for a choice that parsed as the integer \<open>choice\<close>: either
  \<open>set_clipboard_content\<close> is called with the selected entry, or \<open>Invalid number\<close> is
  printed and the clipboard is not touched.
\<close>

datatype selection = Set_clipboard string | Invalid_number

definition select_entry :: "string list \<Rightarrow> int \<Rightarrow> selection" where
  "select_entry entries choice =
     (let index = choice - 1
      in if 0 \<le> index \<and> index < int (length entries)
         then Set_clipboard (entries ! nat index)
         else Invalid_number)"

section \<open>Sequences of history operations\<close>

datatype operation = Add string | Clear

fun apply_operation :: "operation \<Rightarrow> string \<Rightarrow> string" where
  "apply_operation (Add content) history = snd (add_content content history)"
| "apply_operation Clear history = snd (clear_history history)"

fun run_operations :: "operation list \<Rightarrow> string \<Rightarrow> string" where
  "run_operations [] history = history"
| "run_operations (operation # operations) history =
     run_operations operations (apply_operation operation history)"

section \<open>The monitor loop (\<open>monitor\<close>)\<close>

datatype effect =
    Call_add_to_history
  | Log_clipboard_updated
  | Log_error
  | Log_too_many_errors
  | Log_stopped_by_user
  | Sleep nat

datatype status = Running | Too_many_errors | Stopped_by_user

record monitor_state =
  last_content :: string
  retry_count :: int
  history_file :: string
  status :: status
  effects :: "effect list"

definition max_retries :: int where
  "max_retries = 5"

definition monitor_start :: "string \<Rightarrow> monitor_state" where
  "monitor_start history =
     \<lparr>last_content = [], retry_count = 0, history_file = history,
      status = Running, effects = []\<rparr>"

text \<open>The \<open>except Exception\<close> handler of the loop body.\<close>

definition handle_exception :: "monitor_state \<Rightarrow> monitor_state" where
  "handle_exception st =
     (let st1 = st\<lparr>retry_count := retry_count st + 1, effects := effects st @ [Log_error]\<rparr>
      in if retry_count st1 \<ge> max_retries
         then st1\<lparr>status := Too_many_errors, effects := effects st1 @ [Log_too_many_errors]\<rparr>
         else st1\<lparr>effects := effects st1 @ [Sleep 5]\<rparr>)"

text \<open>
  One pass through the loop body. A pass consumes the result of the clipboard read of
  the loop and, when \<open>add_to_history\<close> is called, the result of the read that
  \<open>add_to_history\<close> makes itself.
\<close>

datatype event = Poll run_result run_result | KeyboardInterrupt

fun monitor_iteration :: "event \<Rightarrow> monitor_state \<Rightarrow> monitor_state" where
  "monitor_iteration KeyboardInterrupt st =
     st\<lparr>status := Stopped_by_user, effects := effects st @ [Log_stopped_by_user]\<rparr>"
| "monitor_iteration (Poll r r') st =
     (case get_clipboard_content r of
        Inl e \<Rightarrow> handle_exception st
      | Inr current_content \<Rightarrow>
          let st1 = st\<lparr>retry_count := 0\<rparr>
          in if current_content \<noteq> [] \<and> current_content \<noteq> last_content st1
             then
               (let st2 = st1\<lparr>effects := effects st1 @ [Call_add_to_history]\<rparr>
                in case add_to_history r' (history_file st2) of
                     Inl e \<Rightarrow> handle_exception st2
                   | Inr (added, history) \<Rightarrow>
                       st2\<lparr>history_file := history,
                           last_content := current_content,
                           effects := effects st2
                             @ (if added then [Log_clipboard_updated] else [])
                             @ [Sleep 1]\<rparr>)
             else st1\<lparr>effects := effects st1 @ [Sleep 1]\<rparr>)"

text \<open>
  The \<open>while True\<close> loop, driven by the events of the environment; it is left at the
  first event after which the status is no longer \<open>Running\<close>.
\<close>

fun monitor :: "event list \<Rightarrow> monitor_state \<Rightarrow> monitor_state" where
  "monitor [] st = st"
| "monitor (ev # evs) st =
     (if status st = Running then monitor evs (monitor_iteration ev st) else st)"

text \<open>The passes whose clipboard read raises into the loop body's handler.\<close>

fun read_raises :: "event \<Rightarrow> bool" where
  "read_raises KeyboardInterrupt = False"
| "read_raises (Poll r r') = (case get_clipboard_content r of Inl e \<Rightarrow> True | Inr c \<Rightarrow> False)"

section \<open>Splitting and joining at the separator\<close>

lemma separator_nonempty: "separator \<noteq> []"
  by (simp add: separator_def)

lemma newline_notin_separator: "CHR 0x0A \<notin> set separator"
  by (simp add: separator_def)

lemma split_sep_nonempty: "split_sep s \<noteq> []"
  by (induction s rule: split_sep.induct) (auto split: list.splits)

lemma join_sep_Cons: "bs \<noteq> [] \<Longrightarrow> join_sep (b # bs) = b @ separator @ join_sep bs"
  by (cases bs) simp_all

lemma join_sep_Cons_char: "join_sep ((c # r) # rs) = c # join_sep (r # rs)"
  by (cases rs) simp_all

lemma prefix_separator_drop:
  "prefix separator s \<Longrightarrow> separator @ drop (length separator) s = s"
  by (auto simp: prefix_def)

lemma join_split: "join_sep (split_sep s) = s"
proof (induction s rule: split_sep.induct)
  case 1
  show ?case by simp
next
  case (2 c cs)
  show ?case
  proof (cases "prefix separator (c # cs)")
    case True
    with 2 show ?thesis
      using prefix_separator_drop[OF True]
      by (simp add: join_sep_Cons split_sep_nonempty del: drop_Suc_Cons)
  next
    case False
    obtain r rs where rs: "split_sep cs = r # rs"
      using split_sep_nonempty[of cs] by (cases "split_sep cs") auto
    with 2 False show ?thesis
      by (simp add: join_sep_Cons_char)
  qed
qed

lemma prefix_join_take: "prefix (join_sep (take n (split_sep s))) s"
proof (induction s arbitrary: n rule: split_sep.induct)
  case 1
  show ?case by (cases n) simp_all
next
  case (2 c cs)
  show ?case
  proof (cases "prefix separator (c # cs)")
    case True
    let ?t = "drop (length separator) (c # cs)"
    have s: "c # cs = separator @ ?t"
      using prefix_separator_drop[OF True] by simp
    show ?thesis
    proof (cases n)
      case 0
      then show ?thesis by simp
    next
      case (Suc m)
      show ?thesis
      proof (cases "take m (split_sep ?t) = []")
        case True
        have "join_sep ([] # take m (split_sep ?t)) = []"
          unfolding True by simp
        then show ?thesis using \<open>prefix separator (c # cs)\<close> Suc
          by (simp del: drop_Suc_Cons take_eq_Nil)
      next
        case False
        have "prefix (join_sep (take m (split_sep ?t))) ?t"
          using 2(1)[OF True] .
        then have "prefix (separator @ join_sep (take m (split_sep ?t))) (separator @ ?t)"
          by simp
        then show ?thesis
          using \<open>prefix separator (c # cs)\<close> Suc False s
          by (simp add: join_sep_Cons del: drop_Suc_Cons)
      qed
    qed
  next
    case False
    obtain r rs where rs: "split_sep cs = r # rs"
      using split_sep_nonempty[of cs] by (cases "split_sep cs") auto
    show ?thesis
    proof (cases n)
      case 0
      then show ?thesis by simp
    next
      case (Suc m)
      have "prefix (join_sep (take (Suc m) (split_sep cs))) cs"
        using 2(2)[OF False] .
      then show ?thesis using False rs Suc
        by (simp add: join_sep_Cons_char)
    qed
  qed
qed

lemma split_join_take:
  "0 < n \<Longrightarrow> split_sep (join_sep (take n (split_sep s))) = take n (split_sep s)"
proof (induction s arbitrary: n rule: split_sep.induct)
  case 1
  then show ?case by (cases n) simp_all
next
  case (2 c cs)
  obtain m where n: "n = Suc m" using 2(3) by (cases n) auto
  show ?case
  proof (cases "prefix separator (c # cs)")
    case True
    let ?t = "drop (length separator) (c # cs)"
    show ?thesis
    proof (cases m)
      case 0
      then show ?thesis using True n by simp
    next
      case (Suc k)
      have ne: "take m (split_sep ?t) \<noteq> []"
        using Suc split_sep_nonempty[of ?t] by (cases "split_sep ?t") auto
      have ih: "split_sep (join_sep (take m (split_sep ?t))) = take m (split_sep ?t)"
        using 2(1)[OF True, of m] Suc by simp
      obtain d ds where sep: "separator = d # ds"
        using separator_nonempty by (cases separator) auto
      let ?j = "join_sep (take m (split_sep ?t))"
      have "split_sep (separator @ ?j) = [] # split_sep ?j"
        by (simp add: sep)
      then show ?thesis
        using True n ne ih by (simp add: join_sep_Cons del: drop_Suc_Cons)
    qed
  next
    case False
    obtain r rs where rs: "split_sep cs = r # rs"
      using split_sep_nonempty[of cs] by (cases "split_sep cs") auto
    let ?j = "join_sep (take n (split_sep cs))"
    have ih: "split_sep ?j = take n (split_sep cs)"
      using 2(2)[OF False 2(3)] .
    have "prefix ?j cs" by (rule prefix_join_take)
    then have "prefix (c # ?j) (c # cs)" by simp
    then have np: "\<not> prefix separator (c # ?j)"
      using False prefix_order.trans by blast
    have "join_sep (take n (split_sep (c # cs))) = c # ?j"
      using False rs n by (simp add: join_sep_Cons_char)
    moreover have "split_sep (c # ?j) = (c # r) # take m rs"
      using np ih rs n by simp
    ultimately show ?thesis using False rs n by simp
  qed
qed

section \<open>Stripping whitespace\<close>

lemma isspace_newline: "isspace CHR 0x0A"
  by (simp add: isspace_def)

lemma strip_Nil: "strip [] = []"
  by (simp add: strip_def)

lemma strip_Cons_space: "isspace c \<Longrightarrow> strip (c # s) = strip s"
  by (simp add: strip_def)

lemma strip_snoc_space: "isspace c \<Longrightarrow> strip (s @ [c]) = strip s"
proof -
  assume c: "isspace c"
  show ?thesis
  proof (cases "\<forall>x\<in>set s. isspace x")
    case True
    then show ?thesis using c by (auto simp: strip_def dest: set_dropWhileD)
  next
    case False
    then have "dropWhile isspace (s @ [c]) = dropWhile isspace s @ [c]"
      by (auto simp: dropWhile_append1)
    then show ?thesis using c by (simp add: strip_def)
  qed
qed

lemma strip_blank: "(strip s = []) = (\<forall>c\<in>set s. isspace c)"
proof
  assume "strip s = []"
  then have a: "\<forall>x\<in>set (dropWhile isspace s). isspace x"
    by (simp add: strip_def dropWhile_eq_Nil_conv)
  have "dropWhile isspace s = []"
  proof (rule ccontr)
    assume n: "dropWhile isspace s \<noteq> []"
    then have "\<not> isspace (hd (dropWhile isspace s))" using hd_dropWhile by blast
    moreover have "hd (dropWhile isspace s) \<in> set (dropWhile isspace s)" using n by simp
    ultimately show False using a by blast
  qed
  then show "\<forall>c\<in>set s. isspace c" by (simp add: dropWhile_eq_Nil_conv)
next
  assume "\<forall>c\<in>set s. isspace c"
  then show "strip s = []" by (auto simp: strip_def dest: set_dropWhileD)
qed

lemma strip_ends:
  assumes "strip s \<noteq> []"
  shows "\<not> isspace (hd (strip s))" and "\<not> isspace (last (strip s))"
proof -
  let ?d = "dropWhile isspace s"
  have d: "?d \<noteq> []" using assms by (auto simp: strip_def dest: set_dropWhileD)
  have r: "dropWhile isspace (rev ?d) \<noteq> []" using assms by (simp add: strip_def)
  have "\<not> isspace (hd (dropWhile isspace (rev ?d)))"
    using r hd_dropWhile by blast
  then show "\<not> isspace (last (strip s))"
    using r by (simp add: strip_def last_rev)
  have hd_d: "\<not> isspace (hd ?d)" using d hd_dropWhile by blast
  have "?d = rev (dropWhile isspace (rev ?d)) @ rev (takeWhile isspace (rev ?d))"
    by (metis rev_append rev_rev_ident takeWhile_dropWhile_id)
  then have "hd ?d = hd (rev (dropWhile isspace (rev ?d)))"
    using r by (metis hd_append2 rev_is_Nil_conv)
  then show "\<not> isspace (hd (strip s))"
    using hd_d by (simp add: strip_def)
qed

lemma strip_id:
  "s \<noteq> [] \<Longrightarrow> \<not> isspace (hd s) \<Longrightarrow> \<not> isspace (last s) \<Longrightarrow> strip s = s"
proof -
  assume s: "s \<noteq> []" and h: "\<not> isspace (hd s)" and l: "\<not> isspace (last s)"
  have 1: "dropWhile isspace s = s" using s h by (cases s) auto
  have 2: "dropWhile isspace (rev s) = rev s"
    using s l by (cases "rev s") (auto simp: last_rev[symmetric] simp del: last_rev)
  show ?thesis by (simp add: strip_def 1 2)
qed

lemma strip_strip: "strip (strip s) = strip s"
proof (cases "strip s = []")
  case True
  then show ?thesis by (simp add: strip_Nil)
next
  case False
  then show ?thesis using strip_ends[OF False] by (simp add: strip_id)
qed

section \<open>Blocks of the history file\<close>

lemma not_prefix_notin: "c \<notin> set xs \<Longrightarrow> xs \<noteq> [] \<Longrightarrow> \<not> prefix xs (c # t)"
  by (cases xs) auto

lemma prefix_append_cases:
  "prefix xs (ys @ zs) \<Longrightarrow> prefix xs ys \<or> (\<exists>us. us \<noteq> [] \<and> xs = ys @ us)"
  by (cases "prefix xs ys") (auto simp: prefix_append)

lemma suffix_snoc_last: "suffix xs (ys @ [c]) \<Longrightarrow> xs \<noteq> [] \<Longrightarrow> last xs = c"
  by (auto simp: suffix_def) (metis last_appendR last_snoc)

lemma not_prefix_separator_newline: "\<not> prefix separator (CHR 0x0A # t)"
  using newline_notin_separator separator_nonempty by (rule not_prefix_notin)

lemma split_sep_separator: "split_sep (separator @ t) = [] # split_sep t"
proof -
  obtain d ds where sep: "separator = d # ds"
    using separator_nonempty by (cases separator) auto
  show ?thesis by (simp add: sep)
qed

lemma split_sep_not_prefix:
  "\<not> prefix separator (c # cs) \<Longrightarrow>
   split_sep (c # cs) = (c # hd (split_sep cs)) # tl (split_sep cs)"
  using split_sep_nonempty[of cs] by (cases "split_sep cs") auto

lemma split_sep_newline:
  "split_sep (CHR 0x0A # t) = (CHR 0x0A # hd (split_sep t)) # tl (split_sep t)"
  by (rule split_sep_not_prefix) (rule not_prefix_separator_newline)

lemma split_block:
  "\<not> sublist separator b \<Longrightarrow> b = [] \<or> last b \<notin> set separator \<Longrightarrow>
   split_sep (b @ separator @ t) = b # split_sep t"
proof (induction b)
  case Nil
  show ?case by (simp add: split_sep_separator)
next
  case (Cons c cs)
  have np: "\<not> prefix separator ((c # cs) @ separator @ t)"
  proof
    assume p: "prefix separator ((c # cs) @ separator @ t)"
    then consider "prefix separator (c # cs)"
      | us where "us \<noteq> []" "separator = (c # cs) @ us"
      using prefix_append_cases by blast
    then show False
    proof cases
      case 1
      then show ?thesis using Cons.prems(1) by blast
    next
      case 2
      have "set (c # cs) \<subseteq> set separator"
        by (subst 2(2)) auto
      moreover have "last (c # cs) \<in> set (c # cs)"
        by (rule last_in_set) simp
      ultimately have "last (c # cs) \<in> set separator"
        by blast
      then show ?thesis using Cons.prems(2) by simp
    qed
  qed
  have 1: "\<not> sublist separator cs"
    using Cons.prems(1) by (simp add: sublist_Cons_right)
  have 2: "cs = [] \<or> last cs \<notin> set separator"
    using Cons.prems(2) by (cases cs) auto
  have "split_sep (cs @ separator @ t) = cs # split_sep t"
    using Cons.IH[OF 1 2] .
  then show ?case using np by (simp add: split_sep_not_prefix)
qed

lemma split_no_separator: "\<not> sublist separator b \<Longrightarrow> split_sep b = [b]"
proof (induction b)
  case Nil
  show ?case by simp
next
  case (Cons c cs)
  then have "\<not> prefix separator (c # cs)" and "\<not> sublist separator cs"
    by (auto simp: sublist_Cons_right)
  then show ?case using Cons.IH by (simp add: split_sep_not_prefix)
qed

lemma not_sublist_snoc_newline:
  "\<not> sublist separator x \<Longrightarrow> \<not> sublist separator (x @ [CHR 0x0A])"
proof
  assume n: "\<not> sublist separator x" and s: "sublist separator (x @ [CHR 0x0A])"
  then have "suffix separator (x @ [CHR 0x0A])" by (simp add: sublist_snoc)
  then have "last separator = CHR 0x0A"
    using separator_nonempty by (rule suffix_snoc_last)
  then show False
    using newline_notin_separator separator_nonempty last_in_set by metis
qed

lemma split_written:
  assumes "\<not> sublist separator x"
  shows "split_sep (x @ CHR 0x0A # separator @ CHR 0x0A # h)
         = (x @ ''\<newline>'') # (CHR 0x0A # hd (split_sep h)) # tl (split_sep h)"
proof -
  have a: "split_sep (CHR 0x0A # h) = (CHR 0x0A # hd (split_sep h)) # tl (split_sep h)"
    by (rule split_sep_newline)
  have "split_sep ((x @ ''\<newline>'') @ separator @ (CHR 0x0A # h))
        = (x @ ''\<newline>'') # split_sep (CHR 0x0A # h)"
    by (rule split_block)
       (use assms not_sublist_snoc_newline newline_notin_separator in auto)
  then show ?thesis unfolding a by simp
qed

lemma slice_to_max_entries: "slice_to max_entries xs = take 5 xs"
  by (simp add: slice_to_def max_entries_def)

lemma split_trim_history: "split_sep (trim_history w) = take 5 (split_sep w)"
proof (cases "int (length (split_sep w)) > max_entries")
  case True
  then show ?thesis
    by (simp add: trim_history_def slice_to_max_entries split_join_take)
next
  case False
  then show ?thesis by (simp add: trim_history_def max_entries_def)
qed

lemma add_content_rejected:
  "\<not> fst (add_content x h) \<Longrightarrow> add_content x h = (False, h)"
  by (auto simp: add_content_def Let_def split: if_splits)

lemma add_content_stored:
  "fst (add_content x h) \<Longrightarrow>
   add_content x h = (True, trim_history (x @ ''\<newline>'' @ separator @ ''\<newline>'' @ h))"
  by (auto simp: add_content_def Let_def split: if_splits)

lemma fst_add_content:
  "fst (add_content x h) = (x \<noteq> [] \<and> strip (hd (split_sep h)) \<noteq> strip x)"
  by (auto simp: add_content_def Let_def split_sep_nonempty)

lemma split_add_content:
  assumes "\<not> sublist separator x" and "fst (add_content x h)"
  shows "split_sep (snd (add_content x h))
         = take 5 ((x @ ''\<newline>'') # (CHR 0x0A # hd (split_sep h)) # tl (split_sep h))"
  using assms by (simp add: add_content_stored split_trim_history split_written)

lemma collect_entries_eq:
  "collect_entries entries full = full @ map strip (filter (\<lambda>e. strip e \<noteq> []) entries)"
  by (induction entries arbitrary: full) simp_all

lemma blank_no_separator: "strip s = [] \<Longrightarrow> \<not> sublist separator s"
proof
  assume b: "strip s = []" and s: "sublist separator s"
  then have "set separator \<subseteq> set s" by (auto simp: sublist_def)
  moreover have "CHR ''-'' \<in> set separator" by (simp add: separator_def)
  ultimately have "isspace CHR ''-''" using b by (auto simp: strip_blank)
  then show False by (simp add: isspace_def)
qed

lemma full_entries_eq:
  "full_entries content = map strip (filter (\<lambda>e. strip e \<noteq> []) (split_sep content))"
proof (cases "strip content = []")
  case True
  then have "split_sep content = [content]"
    by (simp add: blank_no_separator split_no_separator)
  then show ?thesis using True by (simp add: full_entries_def)
next
  case False
  then show ?thesis by (simp add: full_entries_def collect_entries_eq)
qed

lemma length_full_entries: "length (full_entries h) \<le> length (split_sep h)"
  by (simp add: full_entries_eq)

section \<open>Properties of the history store and of browsing\<close>

lemma apply_operation_blocks:
  "int (length (split_sep h)) \<le> max_entries \<Longrightarrow>
   int (length (split_sep (apply_operation operation h))) \<le> max_entries"
proof (cases operation)
  case (Add x)
  assume inv: "int (length (split_sep h)) \<le> max_entries"
  show ?thesis
  proof (cases "fst (add_content x h)")
    case True
    then show ?thesis
      using Add by (simp add: add_content_stored split_trim_history max_entries_def)
  next
    case False
    then show ?thesis using Add inv by (simp add: add_content_rejected)
  qed
next
  case Clear
  then show ?thesis by (simp add: clear_history_def max_entries_def)
qed

lemma run_operations_blocks:
  "int (length (split_sep h)) \<le> max_entries \<Longrightarrow>
   int (length (split_sep (run_operations operations h))) \<le> max_entries"
  by (induction operations arbitrary: h) (simp_all add: apply_operation_blocks)

text \<open>
  C1. Starting from an empty history file, after any sequence of add and clear
  operations the file holds at most \<open>max_entries\<close> blocks, and the list of entries
  that \<open>show_history\<close> builds from it has at most \<open>max_entries\<close> elements. The
  contents added are arbitrary; sequences of adds with distinct contents are a
  special case, and every prefix of a sequence is itself a sequence.
\<close>

theorem history_bounded:
  "int (length (split_sep (run_operations operations []))) \<le> max_entries
   \<and> int (length (full_entries (run_operations operations []))) \<le> max_entries"
proof -
  have "int (length (split_sep [])) \<le> max_entries"
    by (simp add: max_entries_def)
  then have b: "int (length (split_sep (run_operations operations []))) \<le> max_entries"
    by (rule run_operations_blocks)
  moreover have "length (full_entries (run_operations operations []))
                 \<le> length (split_sep (run_operations operations []))"
    by (rule length_full_entries)
  ultimately show ?thesis by linarith
qed

text \<open>
  C8. For a list of \<open>n\<close> entries, a choice \<open>i\<close> with \<open>1 \<le> i \<le> n\<close> selects exactly
  the entry at position \<open>i - 1\<close>, which is handed to the clipboard; a choice below 1
  or above \<open>n\<close> is answered with \<open>Invalid number\<close> and nothing is copied.
\<close>

theorem select_entry_range:
  "(1 \<le> i \<and> i \<le> int (length (full_entries h)) \<longrightarrow>
      select_entry (full_entries h) i = Set_clipboard (full_entries h ! nat (i - 1)))
   \<and> (i < 1 \<or> i > int (length (full_entries h)) \<longrightarrow>
      select_entry (full_entries h) i = Invalid_number)"
  by (auto simp: select_entry_def Let_def)

theorem select_entry_range_witness:
  "select_entry (full_entries (run_operations [Add ''hello'', Add ''world''] [])) 2
     = Set_clipboard ''hello''
   \<and> select_entry (full_entries (run_operations [Add ''hello'', Add ''world''] [])) 0
     = Invalid_number
   \<and> select_entry (full_entries (run_operations [Add ''hello'', Add ''world''] [])) 3
     = Invalid_number"
proof -
  let ?h = "run_operations [Add ''hello'', Add ''world''] []"
  have e: "full_entries ?h = [''world'', ''hello'']"
    by code_simp
  note a = select_entry_range[of 2 ?h, unfolded e]
  note b = select_entry_range[of 0 ?h, unfolded e]
  note c = select_entry_range[of 3 ?h, unfolded e]
  show ?thesis
    unfolding e using a b c by simp
qed

text \<open>
  C9, as the code has it. \<open>get_clipboard_content\<close> returns without raising for
  every completed subprocess and for a subprocess error or a timeout, and it raises
  only when running the subprocess raises an exception outside those two classes,
  which is passed on to the caller. For a non-zero exit code, a subprocess error or
  a timeout it returns the empty string, the value it also returns for an empty
  clipboard read with exit code 0, so the caller cannot tell these apart.
\<close>

theorem get_clipboard_content_failure:
  "(r \<noteq> Raises OtherException \<longrightarrow> (\<exists>content. get_clipboard_content r = Inr content))
   \<and> (get_clipboard_content r = Inl e \<longrightarrow> r = Raises OtherException \<and> e = OtherException)
   \<and> (returncode \<noteq> 0 \<longrightarrow>
        get_clipboard_content (CompletedProcess returncode stdout) = Inr [])
   \<and> get_clipboard_content (Raises SubprocessError) = Inr []
   \<and> get_clipboard_content (Raises TimeoutExpired) = Inr []
   \<and> get_clipboard_content (CompletedProcess 0 []) = Inr []"
  by (cases r rule: get_clipboard_content.cases) simp_all

theorem get_clipboard_content_failure_witness:
  "get_clipboard_content (CompletedProcess 1 ''partial'') = Inr []
   \<and> get_clipboard_content (CompletedProcess 1 ''partial'')
     = get_clipboard_content (CompletedProcess 0 [])
   \<and> (\<exists>content. get_clipboard_content (Raises TimeoutExpired) = Inr content)
   \<and> get_clipboard_content (Raises OtherException) = Inl OtherException"
proof -
  note t = get_clipboard_content_failure[where r = "Raises TimeoutExpired"
      and returncode = 1 and stdout = "''partial''"]
  note u = get_clipboard_content_failure[where r = "Raises OtherException"
      and e = OtherException]
  have 1: "get_clipboard_content (CompletedProcess 1 ''partial'') = Inr []"
    by (rule t[THEN conjunct2, THEN conjunct2, THEN conjunct1, THEN mp]) simp
  have 2: "get_clipboard_content (CompletedProcess 0 []) = Inr []"
    by (rule t[THEN conjunct2, THEN conjunct2, THEN conjunct2, THEN conjunct2,
          THEN conjunct2])
  have 3: "\<exists>content. get_clipboard_content (Raises TimeoutExpired) = Inr content"
    by (rule t[THEN conjunct1, THEN mp]) simp
  have 4: "get_clipboard_content (Raises OtherException) = Inl OtherException"
    by simp
  have "Raises OtherException = Raises OtherException \<and> OtherException = OtherException"
    using 4 by (rule u[THEN conjunct2, THEN conjunct1, THEN mp])
  then show ?thesis using 1 2 3 4 by simp
qed

text \<open>
  C9 as stated fails: when running the subprocess raises an exception that is
  neither a subprocess error nor a timeout, the read raises it instead of returning
  the empty string.
\<close>

theorem get_clipboard_content_counterexample:
  "get_clipboard_content (Raises OtherException) = Inl OtherException
   \<and> get_clipboard_content (Raises OtherException) \<noteq> Inr []"
  by simp

lemma full_entries_stripped:
  "e \<in> set (full_entries content) \<Longrightarrow>
   e \<noteq> [] \<and> \<not> isspace (hd e) \<and> \<not> isspace (last e)"
  by (auto simp: full_entries_eq strip_ends)

text \<open>
  C10. For every text of the history file, the entries listed are the blocks of the
  file in order, each stripped of leading and trailing whitespace, with the blocks
  that are empty or whitespace-only left out: every entry listed is non-empty and
  neither starts nor ends with a whitespace character.
\<close>

theorem full_entries_trimmed:
  "full_entries content = map strip (filter (\<lambda>block. strip block \<noteq> []) (split_sep content))
   \<and> (\<forall>e\<in>set (full_entries content). e \<noteq> [] \<and> \<not> isspace (hd e) \<and> \<not> isspace (last e))"
  using full_entries_eq full_entries_stripped by blast

theorem full_entries_trimmed_witness:
  "full_entries (''  a b  '' @ separator @ '' '' @ separator @ ''c'') = [''a b'', ''c'']
   \<and> \<not> isspace (hd ''a b'') \<and> \<not> isspace (last ''a b'')
   \<and> \<not> isspace (hd ''c'') \<and> \<not> isspace (last ''c'')"
proof -
  let ?h = "''  a b  '' @ separator @ '' '' @ separator @ ''c''"
  have e: "full_entries ?h = [''a b'', ''c'']"
    by code_simp
  note t = full_entries_trimmed[of ?h, unfolded e, THEN conjunct2]
  show ?thesis
    unfolding e using t by simp
qed

section \<open>Adding entries: rejection, repetition, order and eviction\<close>

lemma strip_snoc_newline: "strip (x @ ''\<newline>'') = strip x"
  by (rule strip_snoc_space) (rule isspace_newline)

lemma strip_Cons_newline: "strip (CHR 0x0A # x) = strip x"
  by (rule strip_Cons_space) (rule isspace_newline)

lemma hd_split_add_content:
  assumes "\<not> sublist separator x" and "fst (add_content x h)"
  shows "hd (split_sep (snd (add_content x h))) = x @ ''\<newline>''"
  using assms by (simp add: split_add_content)

lemma add_step:
  assumes "\<not> sublist separator x" and "strip x \<noteq> []"
    and "split_sep h = p # ps" and "strip p \<noteq> strip x"
  shows "split_sep (apply_operation (Add x) h)
         = take 5 ((x @ ''\<newline>'') # (CHR 0x0A # p) # ps)"
proof -
  have "x \<noteq> []" using assms(2) by (auto simp: strip_Nil)
  then have "fst (add_content x h)"
    using assms(3,4) by (simp add: fst_add_content)
  then show ?thesis
    using assms(1,3) by (simp add: split_add_content)
qed

lemma eviction_blocks:
  assumes free: "\<forall>x\<in>set [a, b, c, d, e, f]. \<not> sublist separator x \<and> strip x \<noteq> []"
    and dist: "distinct (map strip [a, b, c, d, e, f])"
  shows "split_sep (run_operations [Add a, Add b, Add c, Add d, Add e, Add f] [])
         = [f @ ''\<newline>'', CHR 0x0A # e @ ''\<newline>'', CHR 0x0A # d @ ''\<newline>'',
            CHR 0x0A # c @ ''\<newline>'', CHR 0x0A # b @ ''\<newline>'']"
proof -
  define h1 where "h1 = apply_operation (Add a) []"
  define h2 where "h2 = apply_operation (Add b) h1"
  define h3 where "h3 = apply_operation (Add c) h2"
  define h4 where "h4 = apply_operation (Add d) h3"
  define h5 where "h5 = apply_operation (Add e) h4"
  define h6 where "h6 = apply_operation (Add f) h5"
  have sa: "\<not> sublist separator a" and sb: "\<not> sublist separator b"
    and sc: "\<not> sublist separator c" and sd: "\<not> sublist separator d"
    and se: "\<not> sublist separator e" and sf: "\<not> sublist separator f"
    using free by simp_all
  have na: "strip a \<noteq> []" and nb: "strip b \<noteq> []" and nc: "strip c \<noteq> []"
    and nd: "strip d \<noteq> []" and ne: "strip e \<noteq> []" and nf: "strip f \<noteq> []"
    using free by simp_all
  have ab: "strip (a @ ''\<newline>'') \<noteq> strip b" and bc: "strip (b @ ''\<newline>'') \<noteq> strip c"
    and cd: "strip (c @ ''\<newline>'') \<noteq> strip d" and de: "strip (d @ ''\<newline>'') \<noteq> strip e"
    and ef: "strip (e @ ''\<newline>'') \<noteq> strip f"
    using dist by (simp_all add: strip_snoc_newline)
  have e0: "split_sep [] = [] # []" by simp
  have a0: "strip [] \<noteq> strip a" using na by (simp add: strip_Nil)
  have 1: "split_sep h1 = [a @ ''\<newline>'', ''\<newline>'']"
    unfolding h1_def using add_step[OF sa na e0 a0] by simp
  have 2: "split_sep h2 = [b @ ''\<newline>'', CHR 0x0A # a @ ''\<newline>'', ''\<newline>'']"
    unfolding h2_def using add_step[OF sb nb 1 ab] by simp
  have 3: "split_sep h3 = [c @ ''\<newline>'', CHR 0x0A # b @ ''\<newline>'',
                           CHR 0x0A # a @ ''\<newline>'', ''\<newline>'']"
    unfolding h3_def using add_step[OF sc nc 2 bc] by simp
  have 4: "split_sep h4 = [d @ ''\<newline>'', CHR 0x0A # c @ ''\<newline>'',
                           CHR 0x0A # b @ ''\<newline>'', CHR 0x0A # a @ ''\<newline>'',
                           ''\<newline>'']"
    unfolding h4_def using add_step[OF sd nd 3 cd] by simp
  have 5: "split_sep h5 = [e @ ''\<newline>'', CHR 0x0A # d @ ''\<newline>'',
                           CHR 0x0A # c @ ''\<newline>'', CHR 0x0A # b @ ''\<newline>'',
                           CHR 0x0A # a @ ''\<newline>'']"
    unfolding h5_def using add_step[OF se ne 4 de] by simp
  have 6: "split_sep h6 = [f @ ''\<newline>'', CHR 0x0A # e @ ''\<newline>'',
                           CHR 0x0A # d @ ''\<newline>'', CHR 0x0A # c @ ''\<newline>'',
                           CHR 0x0A # b @ ''\<newline>'']"
    unfolding h6_def using add_step[OF sf nf 5 ef] by simp
  have "run_operations [Add a, Add b, Add c, Add d, Add e, Add f] [] = h6"
    by (simp only: run_operations.simps h1_def h2_def h3_def h4_def h5_def h6_def)
  then show ?thesis using 6 by simp
qed

lemma eviction_entries:
  assumes free: "\<forall>x\<in>set [a, b, c, d, e, f]. \<not> sublist separator x \<and> strip x \<noteq> []"
    and dist: "distinct (map strip [a, b, c, d, e, f])"
  shows "full_entries (run_operations [Add a, Add b, Add c, Add d, Add e, Add f] [])
         = map strip [f, e, d, c, b]"
  unfolding full_entries_eq eviction_blocks[OF free dist]
  using free by (simp add: strip_snoc_newline strip_Cons_newline)

text \<open>
  C4, as the code has it. Six adds from the empty history, with contents \<open>a\<close> to
  \<open>f\<close> that hold no separator, are not whitespace-only and are distinct after
  stripping: the list is \<open>[f, e, d, c, b]\<close> with each entry stripped of its leading
  and trailing whitespace, so the oldest entry \<open>a\<close> is gone and the newest comes
  first. The entries are listed verbatim when the contents have no surrounding
  whitespace.
\<close>

theorem eviction_order:
  assumes "\<forall>x\<in>set [a, b, c, d, e, f]. \<not> sublist separator x \<and> strip x \<noteq> []"
    and "distinct (map strip [a, b, c, d, e, f])"
  shows "full_entries (run_operations [Add a, Add b, Add c, Add d, Add e, Add f] [])
         = map strip [f, e, d, c, b]"
  using assms by (rule eviction_entries)

theorem eviction_order_witness:
  "full_entries
     (run_operations [Add ''A'', Add '' B'', Add ''C\<newline>'', Add ''D'', Add ''E'', Add ''F''] [])
   = [''F'', ''E'', ''D'', ''C'', ''B'']"
proof -
  have 1: "\<forall>x\<in>set [''A'', '' B'', ''C\<newline>'', ''D'', ''E'', ''F''].
             \<not> sublist separator x \<and> strip x \<noteq> []"
    by code_simp
  have 2: "distinct (map strip [''A'', '' B'', ''C\<newline>'', ''D'', ''E'', ''F''])"
    by code_simp
  have 3: "map strip [''F'', ''E'', ''D'', ''C\<newline>'', '' B''] = [''F'', ''E'', ''D'', ''C'', ''B'']"
    by code_simp
  show ?thesis using eviction_order[OF 1 2] unfolding 3 .
qed

text \<open>
  C4 as stated fails for distinct contents that are equal after stripping: the second
  of them is rejected as a duplicate of the head, so nothing is evicted and the list
  ends with \<open>a\<close>.
\<close>

theorem eviction_order_counterexample:
  "distinct [''a'', ''a '', ''c'', ''d'', ''e'', ''f'']
   \<and> full_entries
       (run_operations [Add ''a'', Add ''a '', Add ''c'', Add ''d'', Add ''e'', Add ''f''] [])
     = [''f'', ''e'', ''d'', ''c'', ''a'']"
  by code_simp

text \<open>
  C2, as the code has it. Adding the empty string returns false and leaves the
  history unchanged in every state. Adding a whitespace-only string returns false and
  leaves the history unchanged when the first block of the history file is blank, as
  it is for the empty file; when the first block is not blank, a non-empty
  whitespace-only string is written to the file and the call returns true.
\<close>

theorem add_blank:
  "add_content [] h = (False, h)
   \<and> (strip x = [] \<and> strip (hd (split_sep h)) = [] \<longrightarrow> add_content x h = (False, h))
   \<and> (strip x = [] \<and> x \<noteq> [] \<and> strip (hd (split_sep h)) \<noteq> [] \<longrightarrow>
        fst (add_content x h) \<and> snd (add_content x h) \<noteq> h)"
proof (intro conjI impI)
  show "add_content [] h = (False, h)"
    by (simp add: add_content_def)
next
  assume "strip x = [] \<and> strip (hd (split_sep h)) = []"
  then have "\<not> fst (add_content x h)" by (simp add: fst_add_content)
  then show "add_content x h = (False, h)" by (rule add_content_rejected)
next
  assume a: "strip x = [] \<and> x \<noteq> [] \<and> strip (hd (split_sep h)) \<noteq> []"
  then show "fst (add_content x h)" by (simp add: fst_add_content)
next
  assume a: "strip x = [] \<and> x \<noteq> [] \<and> strip (hd (split_sep h)) \<noteq> []"
  then have f: "fst (add_content x h)" by (simp add: fst_add_content)
  have "\<not> sublist separator x" using a by (simp add: blank_no_separator)
  then have "hd (split_sep (snd (add_content x h))) = x @ ''\<newline>''"
    using f by (rule hd_split_add_content)
  then have "strip (hd (split_sep (snd (add_content x h)))) = []"
    using a by (simp add: strip_snoc_newline)
  then show "snd (add_content x h) \<noteq> h" using a by auto
qed

theorem add_blank_witness:
  "add_content [] ''hello'' = (False, ''hello'')
   \<and> add_content ''   '' [] = (False, [])
   \<and> fst (add_content ''   '' ''hello'')
   \<and> snd (add_content ''   '' ''hello'') \<noteq> ''hello''"
proof -
  have 1: "strip ''   '' = [] \<and> strip (hd (split_sep [])) = []"
    by code_simp
  have 2: "strip ''   '' = [] \<and> ''   '' \<noteq> [] \<and> strip (hd (split_sep ''hello'')) \<noteq> []"
    by code_simp
  show ?thesis
    using add_blank[of "''hello''" "''   ''"] add_blank[of "[]" "''   ''"] 1 2
    by blast
qed

text \<open>
  C2 as stated fails: with the history file left by adding \<open>hello\<close> to the empty
  history, adding three spaces returns true and rewrites the file.
\<close>

theorem add_whitespace_counterexample:
  "add_content ''hello'' [] = (True, ''hello\<newline>---CLIPBOARD_ENTRY_SEPARATOR---\<newline>'')
   \<and> strip ''   '' = []
   \<and> add_content ''   '' ''hello\<newline>---CLIPBOARD_ENTRY_SEPARATOR---\<newline>''
     = (True, ''   \<newline>---CLIPBOARD_ENTRY_SEPARATOR---\<newline>hello\<newline>---CLIPBOARD_ENTRY_SEPARATOR---\<newline>'')"
  by code_simp

text \<open>
  C3, as the code has it. For every history state and every content that does not
  contain the separator, the second of two consecutive adds of that content returns
  false and leaves the history as the first add left it.
\<close>

theorem add_twice:
  assumes "\<not> sublist separator x"
  shows "add_content x (snd (add_content x h)) = (False, snd (add_content x h))"
proof (cases "fst (add_content x h)")
  case True
  then have x: "x \<noteq> []" by (simp add: fst_add_content)
  have "hd (split_sep (snd (add_content x h))) = x @ ''\<newline>''"
    using assms True by (rule hd_split_add_content)
  then have "strip (hd (split_sep (snd (add_content x h)))) = strip x"
    by (simp add: strip_snoc_newline)
  then have "\<not> fst (add_content x (snd (add_content x h)))"
    by (simp add: fst_add_content)
  then show ?thesis by (rule add_content_rejected)
next
  case False
  then have "add_content x h = (False, h)" by (rule add_content_rejected)
  then show ?thesis by simp
qed

theorem add_twice_witness:
  "add_content ''hello'' (snd (add_content ''hello'' []))
   = (False, snd (add_content ''hello'' []))"
proof -
  have "\<not> sublist separator ''hello''" by code_simp
  then show ?thesis by (rule add_twice)
qed

text \<open>
  C3 as stated fails for a content that contains the separator: its first block
  differs from the whole content, so the second add is stored as well.
\<close>

theorem add_twice_counterexample:
  "fst (add_content ''a---CLIPBOARD_ENTRY_SEPARATOR---b''
         (snd (add_content ''a---CLIPBOARD_ENTRY_SEPARATOR---b'' [])))
   \<and> snd (add_content ''a---CLIPBOARD_ENTRY_SEPARATOR---b''
         (snd (add_content ''a---CLIPBOARD_ENTRY_SEPARATOR---b'' [])))
     \<noteq> snd (add_content ''a---CLIPBOARD_ENTRY_SEPARATOR---b'' [])"
  by code_simp

text \<open>
  C7, as the code has it. For every history state and every content that holds no
  separator and is not whitespace-only, a successful add puts the content, stripped
  of leading and trailing whitespace, at index 0 of the list; this is the content
  itself when it has no surrounding whitespace.
\<close>

theorem add_head:
  assumes "\<not> sublist separator x" and "strip x \<noteq> []" and "fst (add_content x h)"
  shows "full_entries (snd (add_content x h)) \<noteq> []
         \<and> full_entries (snd (add_content x h)) ! 0 = strip x"
proof -
  have "split_sep (snd (add_content x h))
        = (x @ ''\<newline>'') # take 4 ((CHR 0x0A # hd (split_sep h)) # tl (split_sep h))"
    using assms(1,3) by (simp add: split_add_content)
  then show ?thesis
    using assms(2) by (simp add: full_entries_eq strip_snoc_newline)
qed

theorem add_head_witness:
  "full_entries (snd (add_content '' world '' (snd (add_content ''hello'' [])))) \<noteq> []
   \<and> full_entries (snd (add_content '' world '' (snd (add_content ''hello'' [])))) ! 0
     = ''world''"
proof -
  have 1: "\<not> sublist separator '' world ''" by code_simp
  have 2: "strip '' world '' \<noteq> []" by code_simp
  have 3: "fst (add_content '' world '' (snd (add_content ''hello'' [])))" by code_simp
  have 4: "strip '' world '' = ''world''" by code_simp
  show ?thesis using add_head[OF 1 2 3] unfolding 4 .
qed

text \<open>
  C7 as stated fails: a content with a trailing newline is stored, and the list
  shows it without the newline.
\<close>

theorem add_head_counterexample:
  "fst (add_content ''hello\<newline>'' [])
   \<and> full_entries (snd (add_content ''hello\<newline>'' [])) ! 0 = ''hello''
   \<and> ''hello'' \<noteq> ''hello\<newline>''"
  by code_simp

section \<open>Properties of the monitor loop\<close>

lemma retry_count_handle_exception:
  "retry_count (handle_exception st) = retry_count st + 1"
  by (simp add: handle_exception_def Let_def)

lemma status_handle_exception:
  "status (handle_exception st)
   = (if max_retries \<le> retry_count st + 1 then Too_many_errors else status st)"
  by (simp add: handle_exception_def Let_def)

lemma effects_handle_exception:
  "count_list (effects (handle_exception st)) Call_add_to_history
   = count_list (effects st) Call_add_to_history"
  by (simp add: handle_exception_def Let_def)

lemma iteration_read_returns:
  assumes "get_clipboard_content r = Inr c" and "status st = Running"
  shows "status (monitor_iteration (Poll r r') st) = Running"
    and "0 \<le> retry_count (monitor_iteration (Poll r r') st)"
    and "retry_count (monitor_iteration (Poll r r') st) \<le> 1"
  using assms
  by (auto simp: Let_def status_handle_exception retry_count_handle_exception
      max_retries_def split: sum.splits)

lemma stop_inv_iteration:
  assumes "(status st = Too_many_errors) = (max_retries \<le> retry_count st)"
    and "status st = Running"
  shows "(status (monitor_iteration ev st) = Too_many_errors)
         = (max_retries \<le> retry_count (monitor_iteration ev st))"
proof (cases ev)
  case KeyboardInterrupt
  then show ?thesis using assms by simp
next
  case (Poll r r')
  show ?thesis
  proof (cases "get_clipboard_content r")
    case (Inl e)
    then show ?thesis
      using Poll assms
      by (simp add: status_handle_exception retry_count_handle_exception)
  next
    case (Inr c)
    then show ?thesis
      using Poll assms iteration_read_returns[OF Inr assms(2), of r']
      by (simp add: max_retries_def)
  qed
qed

lemma stop_inv_monitor:
  "(status st = Too_many_errors) = (max_retries \<le> retry_count st) \<Longrightarrow>
   (status (monitor evs st) = Too_many_errors) = (max_retries \<le> retry_count (monitor evs st))"
proof (induction evs arbitrary: st)
  case Nil
  then show ?case by simp
next
  case (Cons ev evs)
  show ?case
  proof (cases "status st = Running")
    case True
    have "(status (monitor_iteration ev st) = Too_many_errors)
          = (max_retries \<le> retry_count (monitor_iteration ev st))"
      using Cons.prems True by (rule stop_inv_iteration)
    then show ?thesis using True Cons.IH by simp
  next
    case False
    then show ?thesis using Cons.prems by simp
  qed
qed

lemma monitor_stopped: "status st \<noteq> Running \<Longrightarrow> monitor evs st = st"
  by (cases evs) simp_all

lemma monitor_raising_reads:
  assumes "list_all read_raises evs" and "status st = Running"
    and "retry_count st < max_retries"
  shows "(status (monitor evs st) = Too_many_errors)
         = (max_retries \<le> retry_count st + int (length evs))"
  using assms
proof (induction evs arbitrary: st)
  case Nil
  then show ?case by simp
next
  case (Cons ev evs)
  obtain r r' e where ev: "ev = Poll r r'" and r: "get_clipboard_content r = Inl e"
    using Cons.prems(1) by (cases ev) (auto split: sum.splits)
  let ?st = "handle_exception st"
  have step: "monitor (ev # evs) st = monitor evs ?st"
    using Cons.prems(2) ev r by simp
  show ?case
  proof (cases "max_retries \<le> retry_count st + 1")
    case True
    then have "status ?st = Too_many_errors" by (simp add: status_handle_exception)
    then have "monitor evs ?st = ?st" and "status ?st = Too_many_errors"
      by (simp_all add: monitor_stopped)
    then show ?thesis unfolding step using True by simp
  next
    case False
    then have "status ?st = Running" and "retry_count ?st < max_retries"
      using Cons.prems(2)
      by (simp_all add: status_handle_exception retry_count_handle_exception)
    then have "(status (monitor evs ?st) = Too_many_errors)
               = (max_retries \<le> retry_count ?st + int (length evs))"
      using Cons.IH Cons.prems(1) by simp
    then show ?thesis
      unfolding step by (simp add: retry_count_handle_exception add.assoc)
  qed
qed

text \<open>
  C5. The code on five consecutive clipboard reads that time out:
  \<open>get_clipboard_content\<close> returns the empty string for each, so every pass sets the
  counter to zero and the monitor is still running with the counter at zero, where
  the claim counts five read failures and stops the loop. Five consecutive reads that
  raise past \<open>get_clipboard_content\<close> do stop it.
\<close>

theorem monitor_timeouts_not_counted:
  "get_clipboard_content (Raises TimeoutExpired) = Inr []
   \<and> status (monitor (replicate 5 (Poll (Raises TimeoutExpired) (Raises TimeoutExpired)))
              (monitor_start [])) = Running
   \<and> retry_count (monitor (replicate 5 (Poll (Raises TimeoutExpired) (Raises TimeoutExpired)))
                    (monitor_start [])) = 0
   \<and> status (monitor (replicate 5 (Poll (Raises OtherException) (Raises OtherException)))
              (monitor_start [])) = Too_many_errors"
  by code_simp

text \<open>
  C6, as the code has it. On a pass whose clipboard read returns, the monitor calls
  \<open>add_to_history\<close> exactly when the content read is non-empty and differs from the
  last-observed content as a string, with no trimming. When that call returns,
  whatever its result, the last-observed content becomes the content read; so after
  the pass the last-observed content is the content read when that is non-empty, and
  is unchanged when the content read is empty.
\<close>

theorem monitor_add_call:
  assumes "get_clipboard_content r = Inr c"
  shows "count_list (effects (monitor_iteration (Poll r r') st)) Call_add_to_history
         = count_list (effects st) Call_add_to_history
           + (if c \<noteq> [] \<and> c \<noteq> last_content st then 1 else 0)
         \<and> (add_to_history r' (history_file st) = Inr result \<longrightarrow>
              last_content (monitor_iteration (Poll r r') st)
              = (if c = [] then last_content st else c))"
  using assms
  by (auto simp: Let_def effects_handle_exception handle_exception_def
      split: sum.splits prod.splits)

theorem monitor_add_call_witness:
  "count_list
     (effects (monitor_iteration (Poll (CompletedProcess 0 ''b'') (CompletedProcess 0 ''b''))
                ((monitor_start [])\<lparr>last_content := ''a''\<rparr>)))
     Call_add_to_history = 1
   \<and> last_content (monitor_iteration (Poll (CompletedProcess 0 ''b'') (CompletedProcess 0 ''b''))
                     ((monitor_start [])\<lparr>last_content := ''a''\<rparr>)) = ''b''"
proof -
  have c: "get_clipboard_content (CompletedProcess 0 ''b'') = Inr ''b''"
    by simp
  have a: "add_to_history (CompletedProcess 0 ''b'')
             (history_file ((monitor_start [])\<lparr>last_content := ''a''\<rparr>))
           = Inr (add_content ''b'' [])"
    by (simp add: add_to_history_def monitor_start_def)
  note t = monitor_add_call[OF c, of "CompletedProcess 0 ''b''"
      "(monitor_start [])\<lparr>last_content := ''a''\<rparr>" "add_content ''b'' []"]
  have 1: "count_list (effects ((monitor_start [])\<lparr>last_content := ''a''\<rparr>))
             Call_add_to_history = 0"
    by (simp add: monitor_start_def)
  have 2: "last_content ((monitor_start [])\<lparr>last_content := ''a''\<rparr>) = ''a''"
    by simp
  show ?thesis using t a unfolding 1 2 by simp
qed

text \<open>
  C6 as stated fails twice. After \<open>a\<close> has been observed, a read of \<open>a\<close> followed by
  a space equals it under trimmed comparison, yet \<open>add_to_history\<close> is called again;
  and a read that returns the empty string leaves the last-observed content at \<open>a\<close>.
\<close>

theorem monitor_add_call_counterexample:
  "strip ''a '' = strip ''a''
   \<and> effects (monitor [Poll (CompletedProcess 0 ''a'') (CompletedProcess 0 ''a''),
                       Poll (CompletedProcess 0 ''a '') (CompletedProcess 0 ''a '')]
               (monitor_start []))
     = [Call_add_to_history, Log_clipboard_updated, Sleep 1, Call_add_to_history, Sleep 1]
   \<and> last_content (monitor [Poll (CompletedProcess 0 ''a'') (CompletedProcess 0 ''a''),
                             Poll (CompletedProcess 0 []) (CompletedProcess 0 [])]
                     (monitor_start [])) = ''a''"
  by code_simp

end
